theory Spec2Isabelle
  imports Main "HOL-Library.Signed_Division"
begin

section \<open>Tic-tac-toe with move history: the model of \<^verbatim>\<open>src/App.js\<close>\<close>

subsection \<open>Cell values and JavaScript arrays\<close>

text \<open>
  A square of the board holds \<^verbatim>\<open>null\<close>, \<^verbatim>\<open>'X'\<close> or \<^verbatim>\<open>'O'\<close>; reading an array at
  a key it does not have yields \<^verbatim>\<open>undefined\<close>. The specification's \<open>Empty\<close> is
  \<open>Null\<close>, its \<open>X\<close> and \<open>O\<close> are \<open>MarkX\<close> and \<open>MarkO\<close>.
\<close>

datatype jsval = Undefined | Null | MarkX | MarkO

text \<open>JavaScript truthiness: the two non-empty strings are truthy, \<^verbatim>\<open>null\<close> and
  \<^verbatim>\<open>undefined\<close> are falsy.\<close>

definition truthy :: "jsval \<Rightarrow> bool" where
  "truthy v = (v = MarkX \<or> v = MarkO)"

text \<open>
  An array object: its indexed elements (a hole reads as \<^verbatim>\<open>undefined\<close>) and the
  properties stored under keys that are not array indices (a negative key, or one from
  \<open>2^32 - 1\<close> on), most recent first.
\<close>

record jsarray =
  elems :: "jsval list"
  props :: "(int \<times> jsval) list"

definition is_index :: "int \<Rightarrow> bool" where
  "is_index i = (0 \<le> i \<and> i < 2 ^ 32 - 1)"

text \<open>\<^verbatim>\<open>a[i]\<close> as an expression.\<close>

definition array_get :: "jsarray \<Rightarrow> int \<Rightarrow> jsval" where
  "array_get a i =
     (if 0 \<le> i \<and> i < int (length (elems a)) then elems a ! nat i
      else case map_of (props a) i of Some v \<Rightarrow> v | None \<Rightarrow> Undefined)"

text \<open>\<^verbatim>\<open>a[i] = v\<close>: inside the array the element is replaced; an index past the
  end extends the array, leaving holes; any other key becomes a plain property and the
  elements stay as they are.\<close>

definition array_set :: "jsarray \<Rightarrow> int \<Rightarrow> jsval \<Rightarrow> jsarray" where
  "array_set a i v =
     (if 0 \<le> i \<and> i < int (length (elems a)) then a\<lparr>elems := (elems a)[nat i := v]\<rparr>
      else if is_index i
        then a\<lparr>elems := elems a @ replicate (nat i - length (elems a)) Undefined @ [v]\<rparr>
      else a\<lparr>props := (i, v) # props a\<rparr>)"

text \<open>\<^verbatim>\<open>a.slice()\<close>: a new array with the elements of \<open>a\<close>; properties that are
  not elements are not copied.\<close>

definition slice :: "jsarray \<Rightarrow> jsarray" where
  "slice a = \<lparr>elems = elems a, props = []\<rparr>"

text \<open>\<^verbatim>\<open>xs.slice(0, e)\<close> on the history: a negative end counts from the back, an end
  past the length is the length.\<close>

definition slice_to :: "'a list \<Rightarrow> int \<Rightarrow> 'a list" where
  "slice_to xs e = (if e < 0 then take (nat (int (length xs) + e)) xs else take (nat e) xs)"

text \<open>\<^verbatim>\<open>Array(9).fill(null)\<close>\<close>

definition emptyBoard :: jsarray where
  "emptyBoard = \<lparr>elems = replicate 9 Null, props = []\<rparr>"

text \<open>A board of the specification's data model: exactly nine cells, each of them
  \<open>Null\<close>, \<open>MarkX\<close> or \<open>MarkO\<close>, and nothing else stored on the array.\<close>

definition is_cell :: "jsval \<Rightarrow> bool" where
  "is_cell v = (v = Null \<or> v = MarkX \<or> v = MarkO)"

definition board9 :: "jsarray \<Rightarrow> bool" where
  "board9 b = (length (elems b) = 9 \<and> list_all is_cell (elems b) \<and> props b = [])"

subsection \<open>\<^verbatim>\<open>calculateWinner\<close>\<close>

definition lines :: "(int \<times> int \<times> int) list" where
  "lines = [(0, 1, 2), (3, 4, 5), (6, 7, 8),
            (0, 3, 6), (1, 4, 7), (2, 5, 8),
            (0, 4, 8), (2, 4, 6)]"

text \<open>The \<^verbatim>\<open>for\<close> loop over \<^verbatim>\<open>lines\<close>, as recursion over the lines still to be
  looked at: the first line that passes the test ends the loop.\<close>

fun scan_lines :: "jsarray \<Rightarrow> (int \<times> int \<times> int) list \<Rightarrow> jsval" where
  "scan_lines squares [] = Null"
| "scan_lines squares ((a, b, c) # rest) =
     (if truthy (array_get squares a)
         \<and> array_get squares a = array_get squares b
         \<and> array_get squares a = array_get squares c
      then array_get squares a
      else scan_lines squares rest)"

definition calculateWinner :: "jsarray \<Rightarrow> jsval" where
  "calculateWinner squares = scan_lines squares lines"

subsection \<open>The \<^verbatim>\<open>Game\<close> component's state and its handlers\<close>

record game =
  history :: "jsarray list"
  currentMove :: int

definition initial :: game where
  "initial = \<lparr>history = [emptyBoard], currentMove = 0\<rparr>"

text \<open>\<^verbatim>\<open>currentMove % 2 === 0\<close>; the remainder of JavaScript takes the sign of the
  dividend.\<close>

definition xIsNext :: "game \<Rightarrow> bool" where
  "xIsNext g = (currentMove g smod 2 = 0)"

text \<open>The mark that \<^verbatim>\<open>handleClick\<close> places (lines 39 to 43) and the status line names
  (line 56): the specification's \<open>turnToMove\<close>.\<close>

definition turnToMove :: "game \<Rightarrow> jsval" where
  "turnToMove g = (if xIsNext g then MarkX else MarkO)"

text \<open>\<^verbatim>\<open>history[currentMove]\<close>, which is \<^verbatim>\<open>undefined\<close> (here \<open>None\<close>) when the move
  number is no index of the history.\<close>

definition currentSquares :: "game \<Rightarrow> jsarray option" where
  "currentSquares g =
     (if 0 \<le> currentMove g \<and> currentMove g < int (length (history g))
      then Some (history g ! nat (currentMove g)) else None)"

definition handlePlay :: "game \<Rightarrow> jsarray \<Rightarrow> game" where
  "handlePlay g nextSquares =
     (let nextHistory = slice_to (history g) (currentMove g + 1) @ [nextSquares]
      in \<lparr>history = nextHistory, currentMove = int (length nextHistory) - 1\<rparr>)"

definition jumpTo :: "game \<Rightarrow> int \<Rightarrow> game" where
  "jumpTo g nextMove = g\<lparr>currentMove := nextMove\<rparr>"

text \<open>
  \<^verbatim>\<open>handleClick\<close> has one early return, guarded by
  \<^verbatim>\<open>calculateWinner(squares) || squares[i]\<close>, and reports nothing. The model records
  which operand of the guard caused the return, under the names of the specification's
  error taxonomy: the left operand is \<open>GameAlreadyWon\<close>, the right one, evaluated only
  when the left one is falsy, is \<open>CellOccupied\<close>. The source has no test that would give
  \<open>IndexOutOfRange\<close>. \<open>TypeError\<close> is the exception of \<^verbatim>\<open>squares[a]\<close> in
  \<^verbatim>\<open>calculateWinner\<close> when \<^verbatim>\<open>squares\<close> is \<^verbatim>\<open>undefined\<close>.
\<close>

datatype move_error = GameAlreadyWon | CellOccupied | IndexOutOfRange | TypeError

text \<open>\<^verbatim>\<open>handleClick\<close> of \<^verbatim>\<open>Board\<close>, from the props \<^verbatim>\<open>xIsNext\<close> and \<^verbatim>\<open>squares\<close>:
  the result is the array handed to \<^verbatim>\<open>onPlay\<close>.\<close>

definition handleClick :: "bool \<Rightarrow> jsarray option \<Rightarrow> int \<Rightarrow> move_error + jsarray" where
  "handleClick xNext squares i =
     (case squares of
        None \<Rightarrow> Inl TypeError
      | Some sq \<Rightarrow>
          if truthy (calculateWinner sq) then Inl GameAlreadyWon
          else if truthy (array_get sq i) then Inl CellOccupied
          else Inr (array_set (slice sq) i (if xNext then MarkX else MarkO)))"

text \<open>
  The specification's \<open>attemptMove\<close>: a click on square \<open>i\<close> with the props as
  \<^verbatim>\<open>Game\<close> passes them (line 137), \<^verbatim>\<open>onPlay\<close> being \<^verbatim>\<open>handlePlay\<close>. It yields the
  outcome and the state afterwards; an early return sets no state.
\<close>

definition attemptMove :: "game \<Rightarrow> int \<Rightarrow> (move_error + jsarray) \<times> game" where
  "attemptMove g i =
     (case handleClick (xIsNext g) (currentSquares g) i of
        Inl e \<Rightarrow> (Inl e, g)
      | Inr nextSquares \<Rightarrow> (Inr nextSquares, handlePlay g nextSquares))"

text \<open>
  The specification's test of a triple: its three cells are non-empty and equal; and
  the value a completed triple gives, its cell value.
\<close>

fun completed :: "jsarray \<Rightarrow> int \<times> int \<times> int \<Rightarrow> bool" where
  "completed sq (a, b, c) =
     (array_get sq a \<noteq> Null \<and> array_get sq a = array_get sq b \<and> array_get sq a = array_get sq c)"

fun line_value :: "jsarray \<Rightarrow> int \<times> int \<times> int \<Rightarrow> jsval" where
  "line_value sq (a, b, c) = array_get sq a"

text \<open>The board with the three cells \<open>a\<close>, \<open>b\<close>, \<open>c\<close> set to \<open>p\<close> and every other
  cell empty.\<close>

definition triple_board :: "int \<Rightarrow> int \<Rightarrow> int \<Rightarrow> jsval \<Rightarrow> jsarray" where
  "triple_board a b c p =
     \<lparr>elems = (replicate 9 Null)[nat a := p, nat b := p, nat c := p], props = []\<rparr>"

subsection \<open>States of the specification, and runs\<close>

text \<open>A \<open>GameHistory\<close> state of the specification's data model: the cursor is an
  index of the history, and every snapshot is a nine-cell board.\<close>

definition game_state :: "game \<Rightarrow> bool" where
  "game_state g =
     (0 \<le> currentMove g \<and> currentMove g < int (length (history g))
      \<and> list_all board9 (history g))"

text \<open>Clicking the squares of a list one after the other, from a state.\<close>

fun play :: "game \<Rightarrow> int list \<Rightarrow> game" where
  "play g [] = g"
| "play g (i # is) = play (snd (attemptMove g i)) is"

text \<open>
  What the rendered page lets a user do. \<^verbatim>\<open>Board\<close> renders nine squares, bound to
  \<^verbatim>\<open>handleClick(0)\<close> up to \<^verbatim>\<open>handleClick(8)\<close> (lines 64 to 76); \<^verbatim>\<open>Game\<close> renders
  one button per entry of the history, bound to \<^verbatim>\<open>jumpTo(move)\<close> with the entry's
  index (lines 119 to 131).
\<close>

datatype event = SquareClick int | MoveButton int

fun offered :: "game \<Rightarrow> event \<Rightarrow> bool" where
  "offered g (SquareClick i) = (0 \<le> i \<and> i \<le> 8)"
| "offered g (MoveButton move) = (0 \<le> move \<and> move < int (length (history g)))"

fun fire :: "game \<Rightarrow> event \<Rightarrow> game" where
  "fire g (SquareClick i) = snd (attemptMove g i)"
| "fire g (MoveButton move) = jumpTo g move"

inductive reachable :: "game \<Rightarrow> bool" where
  start: "reachable initial"
| step: "reachable g \<Longrightarrow> offered g e \<Longrightarrow> reachable (fire g e)"

text \<open>The cells in which two boards differ, and the specification's relation between
  the snapshot \<open>k - 1\<close> and the snapshot \<open>k\<close>: they differ in exactly one cell, which
  was empty and now holds the mark of the player to move at \<open>k - 1\<close>.\<close>

definition diff_cells :: "jsarray \<Rightarrow> jsarray \<Rightarrow> nat list" where
  "diff_cells b b' = filter (\<lambda>i. elems b ! i \<noteq> elems b' ! i) [0..<9]"

definition one_move :: "nat \<Rightarrow> jsarray \<Rightarrow> jsarray \<Rightarrow> bool" where
  "one_move k b b' =
     (board9 b \<and> board9 b'
      \<and> list_ex (\<lambda>i. diff_cells b b' = [i] \<and> elems b ! i = Null
                     \<and> elems b' ! i = (if even (k - 1) then MarkX else MarkO)) [0..<9])"

text \<open>The invariant behind the history's shape: the cursor is an index, the first
  snapshot is the empty board, and each later snapshot is one move after its
  predecessor.\<close>

definition history_inv :: "game \<Rightarrow> bool" where
  "history_inv g =
     (0 \<le> currentMove g \<and> currentMove g < int (length (history g))
      \<and> history g ! 0 = emptyBoard
      \<and> (\<forall>k. 0 < k \<and> k < length (history g)
             \<longrightarrow> one_move k (history g ! (k - 1)) (history g ! k)))"

subsection \<open>The same handlers over a store of array objects\<close>

text \<open>
  In the source a board is an array object, and the history holds references to such
  objects: \<^verbatim>\<open>squares\<close> in \<^verbatim>\<open>handleClick\<close> is the very object stored at
  \<^verbatim>\<open>history[currentMove]\<close>. To say which objects an assignment writes to, this second
  model keeps the array objects in a store; a reference is a position in it, and a new
  object goes to the end. The history array itself is built anew by every
  \<^verbatim>\<open>handlePlay\<close> and is kept as the list of its elements.
\<close>

type_synonym ref = nat

record game_ref =
  boards :: "jsarray list"
  history_refs :: "ref list"
  currentMove_ref :: int

text \<open>\<^verbatim>\<open>useState([Array(9).fill(null)])\<close> and \<^verbatim>\<open>useState(0)\<close>\<close>

definition initial_ref :: game_ref where
  "initial_ref = \<lparr>boards = [emptyBoard], history_refs = [0], currentMove_ref = 0\<rparr>"

text \<open>Every reference of the history is to an object of the store.\<close>

definition valid_refs :: "game_ref \<Rightarrow> bool" where
  "valid_refs s = list_all (\<lambda>r. r < length (boards s)) (history_refs s)"

definition currentSquares_ref :: "game_ref \<Rightarrow> ref option" where
  "currentSquares_ref s =
     (if 0 \<le> currentMove_ref s \<and> currentMove_ref s < int (length (history_refs s))
      then Some (history_refs s ! nat (currentMove_ref s)) else None)"

text \<open>
  \<^verbatim>\<open>handleClick\<close>: \<^verbatim>\<open>squares.slice()\<close> allocates the copy, and the assignment
  \<^verbatim>\<open>nextSquares[i] = ...\<close> writes to the object \<^verbatim>\<open>nextSquares\<close> refers to. The result
  is the store afterwards and the reference handed to \<^verbatim>\<open>onPlay\<close>.
\<close>

definition handleClick_ref ::
  "jsarray list \<Rightarrow> bool \<Rightarrow> ref option \<Rightarrow> int \<Rightarrow> move_error + jsarray list \<times> ref" where
  "handleClick_ref store xNext squares i =
     (case squares of
        None \<Rightarrow> Inl TypeError
      | Some r \<Rightarrow>
          if truthy (calculateWinner (store ! r)) then Inl GameAlreadyWon
          else if truthy (array_get (store ! r) i) then Inl CellOccupied
          else
            let nextSquares = length store;
                store1 = store @ [slice (store ! r)];
                store2 = store1[nextSquares :=
                           array_set (store1 ! nextSquares) i (if xNext then MarkX else MarkO)]
            in Inr (store2, nextSquares))"

definition handlePlay_ref :: "game_ref \<Rightarrow> jsarray list \<Rightarrow> ref \<Rightarrow> game_ref" where
  "handlePlay_ref s store nextSquares =
     (let nextHistory = slice_to (history_refs s) (currentMove_ref s + 1) @ [nextSquares]
      in \<lparr>boards = store, history_refs = nextHistory,
          currentMove_ref = int (length nextHistory) - 1\<rparr>)"

definition attemptMove_ref :: "game_ref \<Rightarrow> int \<Rightarrow> (move_error + ref) \<times> game_ref" where
  "attemptMove_ref s i =
     (case handleClick_ref (boards s) (currentMove_ref s smod 2 = 0) (currentSquares_ref s) i of
        Inl e \<Rightarrow> (Inl e, s)
      | Inr (store, nextSquares) \<Rightarrow> (Inr nextSquares, handlePlay_ref s store nextSquares))"

text \<open>The state of the first model that a state with a store stands for: every
  reference replaced by the object it refers to.\<close>

definition deref :: "game_ref \<Rightarrow> game" where
  "deref s = \<lparr>history = map (\<lambda>r. boards s ! r) (history_refs s),
              currentMove = currentMove_ref s\<rparr>"

section \<open>Properties\<close>

subsection \<open>Arrays\<close>

lemma replicate9: "replicate 9 x = [x, x, x, x, x, x, x, x, x]"
  by (simp add: numeral_eq_Suc)

lemma board9_get_cell:
  assumes "board9 b" and "0 \<le> i" and "i < 9"
  shows "is_cell (array_get b i)"
proof -
  from assms have "nat i < length (elems b)"
    by (simp add: board9_def)
  moreover from assms have "list_all is_cell (elems b)"
    by (simp add: board9_def)
  ultimately have "is_cell (elems b ! nat i)"
    by (simp add: list_all_length)
  with assms show ?thesis
    by (simp add: array_get_def board9_def)
qed

lemma truthy_cell: "is_cell v \<Longrightarrow> truthy v = (v \<noteq> Null)"
  by (auto simp: is_cell_def truthy_def)

subsection \<open>The winner\<close>

lemma scan_lines_find:
  assumes "list_all (\<lambda>l. is_cell (line_value sq l)) ls"
  shows "scan_lines sq ls =
           (case List.find (completed sq) ls of None \<Rightarrow> Null | Some l \<Rightarrow> line_value sq l)"
  using assms
proof (induction ls)
  case Nil
  show ?case by simp
next
  case (Cons l ls)
  obtain a b c where l: "l = (a, b, c)"
    by (cases l) auto
  from Cons.prems l have cell: "truthy (array_get sq a) = (array_get sq a \<noteq> Null)"
    by (simp add: truthy_cell)
  from Cons.prems have "list_all (\<lambda>l. is_cell (line_value sq l)) ls"
    by simp
  then have IH: "scan_lines sq ls =
      (case List.find (completed sq) ls of None \<Rightarrow> Null | Some l \<Rightarrow> line_value sq l)"
    by (rule Cons.IH)
  have "scan_lines sq (l # ls) = (if completed sq l then line_value sq l else scan_lines sq ls)"
    by (auto simp add: l cell)
  with IH show ?case
    by simp
qed

text \<open>
  C1. On a nine-cell board \<^verbatim>\<open>calculateWinner\<close> looks at the eight triples in the order
  rows, columns, diagonals and returns the cell value of the first one whose three cells
  are non-empty and equal, and \<open>Null\<close> when there is none. The empty board has no
  winner; a board with exactly one of the eight triples set to \<open>MarkX\<close> (to \<open>MarkO\<close>) and
  every other cell empty has the winner \<open>MarkX\<close> (\<open>MarkO\<close>).
\<close>

theorem calculateWinner_first_triple:
  assumes "board9 sq"
  shows "calculateWinner sq =
           (case List.find (completed sq)
                   [(0, 1, 2), (3, 4, 5), (6, 7, 8),
                    (0, 3, 6), (1, 4, 7), (2, 5, 8),
                    (0, 4, 8), (2, 4, 6)] of
              None \<Rightarrow> Null
            | Some l \<Rightarrow> line_value sq l)
         \<and> calculateWinner emptyBoard = Null
         \<and> (\<forall>(a, b, c) \<in> set [(0, 1, 2), (3, 4, 5), (6, 7, 8),
                               (0, 3, 6), (1, 4, 7), (2, 5, 8),
                               (0, 4, 8), (2, 4, 6)].
              calculateWinner (triple_board a b c MarkX) = MarkX
            \<and> calculateWinner (triple_board a b c MarkO) = MarkO)"
proof (intro conjI)
  have "list_all (\<lambda>l. is_cell (line_value sq l)) lines"
    using assms by (simp add: lines_def board9_get_cell)
  then have "scan_lines sq lines =
      (case List.find (completed sq) lines of None \<Rightarrow> Null | Some l \<Rightarrow> line_value sq l)"
    by (rule scan_lines_find)
  then show "calculateWinner sq =
           (case List.find (completed sq)
                   [(0, 1, 2), (3, 4, 5), (6, 7, 8),
                    (0, 3, 6), (1, 4, 7), (2, 5, 8),
                    (0, 4, 8), (2, 4, 6)] of
              None \<Rightarrow> Null
            | Some l \<Rightarrow> line_value sq l)"
    by (simp only: calculateWinner_def lines_def)
next
  show "calculateWinner emptyBoard = Null"
    by (simp add: calculateWinner_def lines_def emptyBoard_def array_get_def truthy_def replicate9)
next
  show "\<forall>(a, b, c) \<in> set [(0, 1, 2), (3, 4, 5), (6, 7, 8),
                               (0, 3, 6), (1, 4, 7), (2, 5, 8),
                               (0, 4, 8), (2, 4, 6)].
              calculateWinner (triple_board a b c MarkX) = MarkX
            \<and> calculateWinner (triple_board a b c MarkO) = MarkO"
    by (simp add: calculateWinner_def lines_def triple_board_def array_get_def truthy_def replicate9)
qed

theorem calculateWinner_first_triple_witness:
  "board9 \<lparr>elems = [MarkO, Null, MarkO, MarkX, MarkX, MarkX, Null, MarkO, Null], props = []\<rparr>
   \<and> calculateWinner \<lparr>elems = [MarkO, Null, MarkO, MarkX, MarkX, MarkX, Null, MarkO, Null],
                        props = []\<rparr> = MarkX"
proof -
  let ?b = "\<lparr>elems = [MarkO, Null, MarkO, MarkX, MarkX, MarkX, Null, MarkO, Null], props = []\<rparr>"
  have b: "board9 ?b"
    by (simp add: board9_def is_cell_def)
  have "calculateWinner ?b =
      (case List.find (completed ?b)
              [(0, 1, 2), (3, 4, 5), (6, 7, 8),
               (0, 3, 6), (1, 4, 7), (2, 5, 8),
               (0, 4, 8), (2, 4, 6)] of
         None \<Rightarrow> Null
       | Some l \<Rightarrow> line_value ?b l)"
    using calculateWinner_first_triple [OF b] by (rule conjunct1)
  also have "\<dots> = MarkX"
    by (simp add: array_get_def)
  finally show ?thesis
    using b by simp
qed

subsection \<open>Moves\<close>

lemmas run_defs =
  attemptMove_def handleClick_def handlePlay_def jumpTo_def currentSquares_def xIsNext_def
  turnToMove_def calculateWinner_def lines_def array_get_def array_set_def slice_def
  slice_to_def is_index_def truthy_def initial_def emptyBoard_def replicate9
  signed_modulo_int_def

lemma xIsNext_even: "xIsNext g = even (currentMove g)"
  unfolding xIsNext_def signed_modulo_int_def
  by (cases "currentMove g" "0::int" rule: linorder_cases) (auto simp: sgn_if abs_if even_iff_mod_2_eq_zero)

lemma scan_lines_result: "scan_lines sq ls = Null \<or> truthy (scan_lines sq ls)"
  by (induction sq ls rule: scan_lines.induct) auto

lemma calculateWinner_truthy: "truthy (calculateWinner sq) = (calculateWinner sq \<noteq> Null)"
  using scan_lines_result [of sq lines] by (auto simp: calculateWinner_def truthy_def)

lemma board9_get_outside:
  assumes "board9 b" and "i < 0 \<or> 8 < i"
  shows "array_get b i = Undefined"
  using assms by (auto simp: board9_def array_get_def)

lemma board9_Null_in_range:
  assumes "board9 b" and "array_get b i = Null"
  shows "0 \<le> i \<and> i \<le> 8"
  using board9_get_outside [OF assms(1), of i] assms(2) by (cases "i < 0 \<or> 8 < i") auto

lemma game_state_current:
  assumes "game_state g"
  shows "\<exists>sq. currentSquares g = Some sq \<and> board9 sq"
  using assms by (auto simp: game_state_def currentSquares_def list_all_length)

lemma handlePlay_in_range:
  assumes "0 \<le> currentMove g" and "currentMove g < int (length (history g))"
  shows "handlePlay g nb =
           \<lparr>history = take (nat (currentMove g) + 1) (history g) @ [nb],
            currentMove = currentMove g + 1\<rparr>"
proof -
  from assms have "slice_to (history g) (currentMove g + 1) = take (nat (currentMove g) + 1) (history g)"
    by (simp add: slice_to_def nat_add_distrib)
  moreover from assms have "int (length (take (nat (currentMove g) + 1) (history g))) = currentMove g + 1"
    by simp
  ultimately show ?thesis
    by (simp add: handlePlay_def Let_def)
qed

text \<open>
  C2. In a state with no winner on the current board and the target cell empty, the
  click succeeds: the array handed on is the current board with only cell \<open>i\<close>
  changed, to the mark of the player to move; the history becomes its prefix up to the
  cursor followed by that array, whatever came after the cursor being dropped; the cursor
  becomes the last index of the new history; and the array is the result. An empty
  target cell is a cell of the board, so \<open>i\<close> is one of 0 to 8.
\<close>

theorem attemptMove_success:
  assumes "game_state g"
    and "currentSquares g = Some sq"
    and "calculateWinner sq = Null"
    and "array_get sq i = Null"
  shows "attemptMove g i =
           (Inr (sq\<lparr>elems := (elems sq)[nat i := turnToMove g]\<rparr>),
            \<lparr>history = take (nat (currentMove g) + 1) (history g)
                         @ [sq\<lparr>elems := (elems sq)[nat i := turnToMove g]\<rparr>],
             currentMove = currentMove g + 1\<rparr>)
         \<and> currentMove (snd (attemptMove g i)) = int (length (history (snd (attemptMove g i)))) - 1
         \<and> 0 \<le> i \<and> i \<le> 8"
proof -
  from assms(1,2) have b9: "board9 sq"
    using game_state_current [OF assms(1)] by auto
  from b9 assms(4) have range: "0 \<le> i \<and> i \<le> 8"
    by (rule board9_Null_in_range)
  from b9 range have set: "array_set (slice sq) i v = sq\<lparr>elems := (elems sq)[nat i := v]\<rparr>" for v
    by (simp add: array_set_def slice_def board9_def)
  from assms(3,4) have "handleClick (xIsNext g) (Some sq) i = Inr (sq\<lparr>elems := (elems sq)[nat i := turnToMove g]\<rparr>)"
    by (simp add: handleClick_def truthy_def set turnToMove_def)
  moreover from assms(1) have "0 \<le> currentMove g" and "currentMove g < int (length (history g))"
    by (simp_all add: game_state_def)
  ultimately show ?thesis
    using assms(2) range by (simp add: attemptMove_def handlePlay_in_range)
qed

lemma attemptMove_cases:
  assumes "currentSquares g = Some sq"
  shows "attemptMove g i =
           (if calculateWinner sq \<noteq> Null then (Inl GameAlreadyWon, g)
            else if truthy (array_get sq i) then (Inl CellOccupied, g)
            else (Inr (array_set (slice sq) i (turnToMove g)),
                  handlePlay g (array_set (slice sq) i (turnToMove g))))"
  using assms
  by (simp add: attemptMove_def handleClick_def calculateWinner_truthy turnToMove_def)

lemma board9_occupied:
  assumes "board9 sq"
  shows "truthy (array_get sq i) = (0 \<le> i \<and> i \<le> 8 \<and> array_get sq i \<noteq> Null)"
proof (cases "0 \<le> i \<and> i \<le> 8")
  case True
  with assms have "is_cell (array_get sq i)"
    by (simp add: board9_get_cell)
  with True show ?thesis
    by (simp add: truthy_cell)
next
  case False
  with assms have "array_get sq i = Undefined"
    by (auto intro: board9_get_outside)
  with False show ?thesis
    by (simp add: truthy_def)
qed

text \<open>
  C3, as the code has it. In every state and for every integer \<open>i\<close> the checks run in
  this order: a winner on the current board gives \<open>GameAlreadyWon\<close>; otherwise an
  occupied cell \<open>i\<close> of the board gives \<open>CellOccupied\<close>; otherwise the click is
  accepted, also when \<open>i\<close> is no cell of the board: there is no range check, and
  \<open>IndexOutOfRange\<close> is never the outcome.
\<close>

theorem attemptMove_checks:
  assumes "game_state g"
  shows "\<exists>sq. currentSquares g = Some sq
           \<and> (if calculateWinner sq \<noteq> Null then attemptMove g i = (Inl GameAlreadyWon, g)
              else if 0 \<le> i \<and> i \<le> 8 \<and> array_get sq i \<noteq> Null
                then attemptMove g i = (Inl CellOccupied, g)
              else \<exists>nextSquares. attemptMove g i = (Inr nextSquares, handlePlay g nextSquares)
                     \<and> array_get nextSquares i = turnToMove g)
           \<and> fst (attemptMove g i) \<noteq> Inl IndexOutOfRange"
proof -
  from game_state_current [OF assms] obtain sq
    where sq: "currentSquares g = Some sq" and b9: "board9 sq"
    by auto
  have get_set: "array_get (array_set (slice sq) i v) i = v" for v
    by (auto simp: array_get_def array_set_def slice_def is_index_def nth_append)
  from sq b9 show ?thesis
    by (auto simp: attemptMove_cases board9_occupied get_set)
qed


text \<open>The specification's scenario: after moves at 0, 1, 2 and a jump back to move 1,
  a move at 4 leaves a history of length 3.\<close>

theorem attemptMove_success_witness:
  "attemptMove (jumpTo (play initial [0, 1, 2]) 1) 4 =
     (Inr \<lparr>elems = [MarkX, Null, Null, Null, MarkO, Null, Null, Null, Null], props = []\<rparr>,
      \<lparr>history = [emptyBoard,
                  \<lparr>elems = [MarkX, Null, Null, Null, Null, Null, Null, Null, Null], props = []\<rparr>,
                  \<lparr>elems = [MarkX, Null, Null, Null, MarkO, Null, Null, Null, Null], props = []\<rparr>],
       currentMove = 2\<rparr>)"
proof -
  let ?g = "jumpTo (play initial [0, 1, 2]) 1"
  let ?sq = "\<lparr>elems = [MarkX, Null, Null, Null, Null, Null, Null, Null, Null], props = []\<rparr>"
  have g: "?g = \<lparr>history = [emptyBoard, ?sq,
                   \<lparr>elems = [MarkX, MarkO, Null, Null, Null, Null, Null, Null, Null], props = []\<rparr>,
                   \<lparr>elems = [MarkX, MarkO, MarkX, Null, Null, Null, Null, Null, Null], props = []\<rparr>],
                 currentMove = 1\<rparr>"
    by (simp add: run_defs)
  have h1: "game_state ?g"
    unfolding g by (simp add: game_state_def board9_def is_cell_def emptyBoard_def replicate9)
  have h2: "currentSquares ?g = Some ?sq"
    unfolding g by (simp add: currentSquares_def)
  have h3: "calculateWinner ?sq = Null"
    by (simp add: calculateWinner_def lines_def array_get_def truthy_def)
  have h4: "array_get ?sq 4 = Null"
    by (simp add: array_get_def)
  have h5: "turnToMove ?g = MarkO"
    unfolding g by (simp add: turnToMove_def xIsNext_def signed_modulo_int_def)
  from attemptMove_success [OF h1 h2 h3 h4] show ?thesis
    unfolding h5 unfolding g by simp
qed

text \<open>C3 as stated fails: on the fresh game a click with index 9, which is outside 0 to
  8, is not refused with \<open>IndexOutOfRange\<close>; the array grows to ten elements and the
  move enters the history.\<close>

theorem attemptMove_index_counterexample:
  "game_state initial
   \<and> currentSquares initial = Some emptyBoard
   \<and> calculateWinner emptyBoard = Null
   \<and> \<not> (0 \<le> (9::int) \<and> (9::int) \<le> 8)
   \<and> attemptMove initial 9 =
       (Inr \<lparr>elems = [Null, Null, Null, Null, Null, Null, Null, Null, Null, MarkX], props = []\<rparr>,
        \<lparr>history = [emptyBoard,
                    \<lparr>elems = [Null, Null, Null, Null, Null, Null, Null, Null, Null, MarkX],
                       props = []\<rparr>],
         currentMove = 1\<rparr>)
   \<and> fst (attemptMove initial 9) \<noteq> Inl IndexOutOfRange"
  by (simp add: run_defs game_state_def board9_def is_cell_def)


theorem attemptMove_checks_witness:
  "game_state initial
   \<and> attemptMove initial (-1) =
       (Inr \<lparr>elems = [Null, Null, Null, Null, Null, Null, Null, Null, Null],
              props = [(-1, MarkX)]\<rparr>,
        handlePlay initial \<lparr>elems = [Null, Null, Null, Null, Null, Null, Null, Null, Null],
              props = [(-1, MarkX)]\<rparr>)"
proof -
  have h: "game_state initial"
    by (simp add: initial_def game_state_def board9_def is_cell_def emptyBoard_def replicate9)
  have sq: "currentSquares initial = Some emptyBoard"
    by (simp add: initial_def currentSquares_def)
  have w: "calculateWinner emptyBoard = Null"
    by (simp add: run_defs)
  from attemptMove_checks [OF h, of "-1"] sq w
  obtain nextSquares where n: "attemptMove initial (-1) = (Inr nextSquares, handlePlay initial nextSquares)"
    by auto
  have "fst (attemptMove initial (-1)) = Inr \<lparr>elems = [Null, Null, Null, Null, Null, Null, Null, Null, Null],
              props = [(-1, MarkX)]\<rparr>"
    by (simp add: run_defs)
  with n h show ?thesis
    by simp
qed

subsection \<open>Refused clicks, the turn, and jumps\<close>

lemma play_01346:
  "play initial [0, 1, 3, 4, 6] =
     \<lparr>history =
        [emptyBoard,
         \<lparr>elems = [MarkX, Null, Null, Null, Null, Null, Null, Null, Null], props = []\<rparr>,
         \<lparr>elems = [MarkX, MarkO, Null, Null, Null, Null, Null, Null, Null], props = []\<rparr>,
         \<lparr>elems = [MarkX, MarkO, Null, MarkX, Null, Null, Null, Null, Null], props = []\<rparr>,
         \<lparr>elems = [MarkX, MarkO, Null, MarkX, MarkO, Null, Null, Null, Null], props = []\<rparr>,
         \<lparr>elems = [MarkX, MarkO, Null, MarkX, MarkO, Null, MarkX, Null, Null], props = []\<rparr>],
      currentMove = 5\<rparr>"
  by (simp add: run_defs)

lemma play_01:
  "play initial [0, 1] =
     \<lparr>history =
        [emptyBoard,
         \<lparr>elems = [MarkX, Null, Null, Null, Null, Null, Null, Null, Null], props = []\<rparr>,
         \<lparr>elems = [MarkX, MarkO, Null, Null, Null, Null, Null, Null, Null], props = []\<rparr>],
      currentMove = 2\<rparr>"
  by (simp add: run_defs)

text \<open>
  C6. When the current board has a winner, a click on any square, empty ones included,
  is refused as \<open>GameAlreadyWon\<close> and the state stays as it is. After X at 0, O at 1,
  X at 3, O at 4 and X at 6 the current board has the winner X (the left column), and
  every click is refused in this way.
\<close>

theorem attemptMove_after_win:
  "(currentSquares g = Some sq \<longrightarrow> calculateWinner sq \<noteq> Null
      \<longrightarrow> attemptMove g i = (Inl GameAlreadyWon, g))
   \<and> currentSquares (play initial [0, 1, 3, 4, 6]) =
        Some \<lparr>elems = [MarkX, MarkO, Null, MarkX, MarkO, Null, MarkX, Null, Null], props = []\<rparr>
   \<and> calculateWinner
        \<lparr>elems = [MarkX, MarkO, Null, MarkX, MarkO, Null, MarkX, Null, Null], props = []\<rparr> = MarkX
   \<and> attemptMove (play initial [0, 1, 3, 4, 6]) i =
        (Inl GameAlreadyWon, play initial [0, 1, 3, 4, 6])"
proof -
  let ?b = "\<lparr>elems = [MarkX, MarkO, Null, MarkX, MarkO, Null, MarkX, Null, Null], props = []\<rparr>"
  have cur: "currentSquares (play initial [0, 1, 3, 4, 6]) = Some ?b"
    unfolding play_01346 by (simp add: currentSquares_def)
  have win: "calculateWinner ?b = MarkX"
    by (simp add: calculateWinner_def lines_def array_get_def truthy_def)
  have gen: "attemptMove g i = (Inl GameAlreadyWon, g)"
    if "currentSquares g = Some sq" and "calculateWinner sq \<noteq> Null" for g sq
    using that by (simp add: attemptMove_cases)
  have "calculateWinner ?b \<noteq> Null"
    unfolding win by simp
  with cur have "attemptMove (play initial [0, 1, 3, 4, 6]) i =
        (Inl GameAlreadyWon, play initial [0, 1, 3, 4, 6])"
    by (rule gen)
  with cur win gen show ?thesis
    by blast
qed

text \<open>In that state, square 2 is still empty, and the click on it is refused.\<close>

theorem attemptMove_after_win_witness:
  "array_get \<lparr>elems = [MarkX, MarkO, Null, MarkX, MarkO, Null, MarkX, Null, Null], props = []\<rparr> 2 = Null
   \<and> attemptMove (play initial [0, 1, 3, 4, 6]) 2 =
       (Inl GameAlreadyWon, play initial [0, 1, 3, 4, 6])"
  using attemptMove_after_win [of "play initial [0, 1, 3, 4, 6]"
      "\<lparr>elems = [MarkX, MarkO, Null, MarkX, MarkO, Null, MarkX, Null, Null], props = []\<rparr>" 2]
  by (simp add: array_get_def)

text \<open>
  C7, as the code has it. A click on an occupied cell of the current board is refused
  and leaves history and cursor as they were. The outcome is \<open>CellOccupied\<close> when the
  board has no winner; when it has one, the winner test comes first and the outcome is
  \<open>GameAlreadyWon\<close>.
\<close>

theorem attemptMove_occupied:
  assumes "currentSquares g = Some sq"
    and "board9 sq"
    and "0 \<le> i" and "i \<le> 8"
    and "array_get sq i \<noteq> Null"
  shows "attemptMove g i =
           (Inl (if calculateWinner sq = Null then CellOccupied else GameAlreadyWon), g)"
  using assms by (simp add: attemptMove_cases board9_occupied)

text \<open>After X at 4, a second click on square 4.\<close>

theorem attemptMove_occupied_witness:
  "attemptMove (play initial [4]) 4 = (Inl CellOccupied, play initial [4])"
proof -
  let ?sq = "\<lparr>elems = [Null, Null, Null, Null, MarkX, Null, Null, Null, Null], props = []\<rparr>"
  have g: "play initial [4] = \<lparr>history = [emptyBoard, ?sq], currentMove = 1\<rparr>"
    by (simp add: run_defs)
  have h1: "currentSquares (play initial [4]) = Some ?sq"
    unfolding g by (simp add: currentSquares_def)
  have h2: "board9 ?sq"
    by (simp add: board9_def is_cell_def)
  have h3: "array_get ?sq 4 \<noteq> Null"
    by (simp add: array_get_def)
  have h4: "calculateWinner ?sq = Null"
    by (simp add: calculateWinner_def lines_def array_get_def truthy_def)
  from attemptMove_occupied [OF h1 h2 _ _ h3] h4 show ?thesis
    by simp
qed

text \<open>C7 as stated fails in a state whose board has a winner: after X has won with the
  left column, a click on the occupied square 0 is refused as \<open>GameAlreadyWon\<close>, not
  as \<open>CellOccupied\<close>.\<close>

theorem attemptMove_occupied_counterexample:
  "currentSquares (play initial [0, 1, 3, 4, 6]) =
     Some \<lparr>elems = [MarkX, MarkO, Null, MarkX, MarkO, Null, MarkX, Null, Null], props = []\<rparr>
   \<and> array_get \<lparr>elems = [MarkX, MarkO, Null, MarkX, MarkO, Null, MarkX, Null, Null],
                  props = []\<rparr> 0 = MarkX
   \<and> fst (attemptMove (play initial [0, 1, 3, 4, 6]) 0) = Inl GameAlreadyWon
   \<and> fst (attemptMove (play initial [0, 1, 3, 4, 6]) 0) \<noteq> Inl CellOccupied"
  unfolding play_01346 by (simp add: run_defs)

text \<open>
  C8. The player to move is X exactly when the cursor is even and O exactly when it is
  odd; it depends on the cursor alone, whatever the history. On the fresh game a click
  on square 4 puts X there and moves the cursor to 1, after which O is to move.
\<close>

theorem turnToMove_parity:
  "(turnToMove g = MarkX) = even (currentMove g)
   \<and> (turnToMove g = MarkO) = odd (currentMove g)
   \<and> turnToMove \<lparr>history = h, currentMove = currentMove g\<rparr> = turnToMove g
   \<and> attemptMove initial 4 =
       (Inr \<lparr>elems = [Null, Null, Null, Null, MarkX, Null, Null, Null, Null], props = []\<rparr>,
        \<lparr>history = [emptyBoard,
                    \<lparr>elems = [Null, Null, Null, Null, MarkX, Null, Null, Null, Null],
                       props = []\<rparr>],
         currentMove = 1\<rparr>)
   \<and> turnToMove (snd (attemptMove initial 4)) = MarkO"
proof (intro conjI)
  show "attemptMove initial 4 =
       (Inr \<lparr>elems = [Null, Null, Null, Null, MarkX, Null, Null, Null, Null], props = []\<rparr>,
        \<lparr>history = [emptyBoard,
                    \<lparr>elems = [Null, Null, Null, Null, MarkX, Null, Null, Null, Null],
                       props = []\<rparr>],
         currentMove = 1\<rparr>)"
    by (simp add: run_defs)
  then show "turnToMove (snd (attemptMove initial 4)) = MarkO"
    by (simp add: turnToMove_def xIsNext_even)
qed (simp_all add: turnToMove_def xIsNext_even)

text \<open>At the cursors \<open>- 3\<close> and 6.\<close>

theorem turnToMove_parity_witness:
  "turnToMove \<lparr>history = [emptyBoard], currentMove = - 3\<rparr> = MarkO
   \<and> turnToMove \<lparr>history = [emptyBoard], currentMove = 6\<rparr> = MarkX"
  using turnToMove_parity [of "\<lparr>history = [emptyBoard], currentMove = - 3\<rparr>"]
    turnToMove_parity [of "\<lparr>history = [emptyBoard], currentMove = 6\<rparr>"]
  by simp

text \<open>
  C4, as the code has it. \<^verbatim>\<open>jumpTo\<close> sets the cursor to the number it is given,
  whether or not that is an index of the history, and never changes the history; jumping
  away and back restores the state.
\<close>

theorem jumpTo_sets_cursor:
  "currentMove (jumpTo g move) = move
   \<and> history (jumpTo g move) = history g
   \<and> jumpTo (jumpTo g move) (currentMove g) = g"
  by (simp add: jumpTo_def)

text \<open>After two moves, a jump back to move 1.\<close>

theorem jumpTo_sets_cursor_witness:
  "currentMove (jumpTo (play initial [0, 1]) 1) = 1
   \<and> history (jumpTo (play initial [0, 1]) 1) = history (play initial [0, 1])"
  using jumpTo_sets_cursor [of "play initial [0, 1]" 1] by simp

text \<open>C4 as stated fails: with a history of length 3, \<^verbatim>\<open>jumpTo(5)\<close> is not refused;
  the cursor becomes 5 and the state is not the one before.\<close>

theorem jumpTo_out_of_range_counterexample:
  "length (history (play initial [0, 1])) = 3
   \<and> currentMove (play initial [0, 1]) = 2
   \<and> \<not> (0 \<le> (5::int) \<and> (5::int) < 3)
   \<and> currentMove (jumpTo (play initial [0, 1]) 5) = 5
   \<and> jumpTo (play initial [0, 1]) 5 \<noteq> play initial [0, 1]"
  unfolding play_01 by (simp add: jumpTo_def)

subsection \<open>Boards with several completed triples\<close>

text \<open>
  C9. On a nine-cell board, legal or not, on which the triple at position \<open>k\<close> of the
  fixed order is completed and no earlier one is, \<^verbatim>\<open>calculateWinner\<close> returns the value
  of that triple, whatever later triples hold. With the top row X and the middle row O
  the winner is X; with the two rows exchanged it is O.
\<close>

theorem calculateWinner_several_triples:
  assumes "board9 sq"
    and "k < 8"
    and "completed sq ([(0, 1, 2), (3, 4, 5), (6, 7, 8),
                        (0, 3, 6), (1, 4, 7), (2, 5, 8),
                        (0, 4, 8), (2, 4, 6)] ! k)"
    and "\<forall>j<k. \<not> completed sq ([(0, 1, 2), (3, 4, 5), (6, 7, 8),
                                   (0, 3, 6), (1, 4, 7), (2, 5, 8),
                                   (0, 4, 8), (2, 4, 6)] ! j)"
  shows "calculateWinner sq =
           line_value sq ([(0, 1, 2), (3, 4, 5), (6, 7, 8),
                           (0, 3, 6), (1, 4, 7), (2, 5, 8),
                           (0, 4, 8), (2, 4, 6)] ! k)
         \<and> calculateWinner
             \<lparr>elems = [MarkX, MarkX, MarkX, MarkO, MarkO, MarkO, Null, Null, Null], props = []\<rparr>
           = MarkX
         \<and> calculateWinner
             \<lparr>elems = [MarkO, MarkO, MarkO, MarkX, MarkX, MarkX, Null, Null, Null], props = []\<rparr>
           = MarkO"
proof (intro conjI)
  have "list_all (\<lambda>l. is_cell (line_value sq l)) lines"
    using assms(1) by (simp add: lines_def board9_get_cell)
  then have scan: "calculateWinner sq =
      (case List.find (completed sq) lines of None \<Rightarrow> Null | Some l \<Rightarrow> line_value sq l)"
    unfolding calculateWinner_def by (rule scan_lines_find)
  from assms(2) have "k < length lines"
    by (simp add: lines_def)
  moreover from assms(3) have "completed sq (lines ! k)"
    by (simp only: lines_def)
  moreover from assms(4) have "\<forall>j<k. \<not> completed sq (lines ! j)"
    by (simp only: lines_def)
  ultimately have "List.find (completed sq) lines = Some (lines ! k)"
    unfolding find_Some_iff by blast
  with scan have "calculateWinner sq = line_value sq (lines ! k)"
    by simp
  then show "calculateWinner sq =
           line_value sq ([(0, 1, 2), (3, 4, 5), (6, 7, 8),
                           (0, 3, 6), (1, 4, 7), (2, 5, 8),
                           (0, 4, 8), (2, 4, 6)] ! k)"
    by (simp only: lines_def)
qed (simp_all add: calculateWinner_def lines_def array_get_def truthy_def)

text \<open>A board that legal play cannot reach: the middle row is O, the bottom row is X,
  the top row is not completed; the middle row comes first.\<close>

theorem calculateWinner_several_triples_witness:
  "calculateWinner
     \<lparr>elems = [MarkX, MarkO, MarkX, MarkO, MarkO, MarkO, MarkX, MarkX, MarkX], props = []\<rparr>
   = MarkO"
proof -
  let ?b = "\<lparr>elems = [MarkX, MarkO, MarkX, MarkO, MarkO, MarkO, MarkX, MarkX, MarkX], props = []\<rparr>"
  have h1: "board9 ?b"
    by (simp add: board9_def is_cell_def)
  have h2: "(1::nat) < 8"
    by simp
  have h3: "completed ?b ([(0, 1, 2), (3, 4, 5), (6, 7, 8),
                        (0, 3, 6), (1, 4, 7), (2, 5, 8),
                        (0, 4, 8), (2, 4, 6)] ! 1)"
    by (simp add: array_get_def)
  have h4: "\<forall>j<1. \<not> completed ?b ([(0, 1, 2), (3, 4, 5), (6, 7, 8),
                                   (0, 3, 6), (1, 4, 7), (2, 5, 8),
                                   (0, 4, 8), (2, 4, 6)] ! j)"
    by (simp add: array_get_def)
  from calculateWinner_several_triples [OF h1 h2 h3 h4]
  have "calculateWinner ?b = line_value ?b ([(0, 1, 2), (3, 4, 5), (6, 7, 8),
                           (0, 3, 6), (1, 4, 7), (2, 5, 8),
                           (0, 4, 8), (2, 4, 6)] ! 1)"
    by (rule conjunct1)
  then show ?thesis
    by (simp add: array_get_def)
qed

subsection \<open>The shape of the history\<close>

lemma filter_eq_upt: "i < n \<Longrightarrow> filter (\<lambda>j. j = i) [0..<n] = [i]"
proof (induction n)
  case 0
  then show ?case by simp
next
  case (Suc n)
  show ?case
  proof (cases "i = n")
    case True
    have "filter (\<lambda>j. j = n) [0..<n] = []"
      by (simp add: filter_empty_conv)
    with True show ?thesis by simp
  next
    case False
    with Suc show ?thesis by simp
  qed
qed

lemma diff_cells_update:
  assumes "length (elems b) = 9" and "i < 9" and "elems b ! i \<noteq> v"
  shows "diff_cells b (b\<lparr>elems := (elems b)[i := v]\<rparr>) = [i]"
proof -
  have "filter (\<lambda>j. elems b ! j \<noteq> (elems b)[i := v] ! j) [0..<9] = filter (\<lambda>j. j = i) [0..<9]"
    using assms by (intro filter_cong) (auto simp: nth_list_update)
  with assms(2) show ?thesis
    by (simp add: diff_cells_def filter_eq_upt)
qed

lemma board9_update:
  assumes "board9 b" and "is_cell v"
  shows "board9 (b\<lparr>elems := (elems b)[i := v]\<rparr>)"
  using assms set_update_subset_insert [of "elems b" i v]
  by (auto simp: board9_def list_all_iff)

lemma board9_emptyBoard: "board9 emptyBoard"
  by (simp add: board9_def emptyBoard_def is_cell_def replicate9)

lemma one_move_update:
  assumes "board9 b" and "i < 9" and "elems b ! i = Null"
    and "v = (if even (k - 1) then MarkX else MarkO)"
  shows "one_move k b (b\<lparr>elems := (elems b)[i := v]\<rparr>)"
proof -
  from assms(4) have v: "is_cell v" "Null \<noteq> v"
    by (auto simp: is_cell_def)
  from assms(1) have len: "length (elems b) = 9"
    by (simp add: board9_def)
  from len assms(2,3) v have "diff_cells b (b\<lparr>elems := (elems b)[i := v]\<rparr>) = [i]"
    by (intro diff_cells_update) simp_all
  moreover from len assms(2) have "elems (b\<lparr>elems := (elems b)[i := v]\<rparr>) ! i = v"
    by simp
  ultimately have "\<exists>j\<in>set [0..<9]. diff_cells b (b\<lparr>elems := (elems b)[i := v]\<rparr>) = [j]
      \<and> elems b ! j = Null
      \<and> elems (b\<lparr>elems := (elems b)[i := v]\<rparr>) ! j = (if even (k - 1) then MarkX else MarkO)"
    using assms(2,3,4) by (intro bexI [of _ i]) simp_all
  with assms(1) v(1) show ?thesis
    unfolding one_move_def list_ex_iff by (simp add: board9_update)
qed

lemma history_inv_step:
  assumes "history_inv g" and "0 < k" and "k < length (history g)"
  shows "one_move k (history g ! (k - 1)) (history g ! k)"
  using assms unfolding history_inv_def by blast

lemma history_inv_board9:
  assumes "history_inv g" and "k < length (history g)"
  shows "board9 (history g ! k)"
proof (cases k)
  case 0
  with assms(1) show ?thesis
    by (simp add: history_inv_def board9_emptyBoard)
next
  case (Suc n)
  with assms have "one_move k (history g ! (k - 1)) (history g ! k)"
    by (intro history_inv_step) simp_all
  then show ?thesis
    by (simp add: one_move_def)
qed

lemma history_inv_initial: "history_inv initial"
  by (simp add: history_inv_def initial_def)

lemma history_inv_jumpTo:
  assumes "history_inv g" and "0 \<le> move" and "move < int (length (history g))"
  shows "history_inv (jumpTo g move)"
  using assms by (simp add: history_inv_def jumpTo_def)

lemma history_inv_attemptMove:
  assumes inv: "history_inv g" and i: "0 \<le> i" "i \<le> 8"
  shows "history_inv (snd (attemptMove g i))"
proof -
  let ?c = "nat (currentMove g)"
  let ?h = "history g"
  from inv have c: "0 \<le> currentMove g" "currentMove g < int (length ?h)"
    by (simp_all add: history_inv_def)
  then have cur: "currentSquares g = Some (?h ! ?c)"
    by (simp add: currentSquares_def)
  from c have clen: "?c < length ?h"
    by simp
  with inv have b9: "board9 (?h ! ?c)"
    by (rule history_inv_board9)
  show ?thesis
  proof (cases "calculateWinner (?h ! ?c) \<noteq> Null \<or> truthy (array_get (?h ! ?c) i)")
    case True
    with cur inv show ?thesis
      by (auto simp: attemptMove_cases)
  next
    case False
    with b9 i have empty: "array_get (?h ! ?c) i = Null"
      by (simp add: board9_occupied)
    from False b9 have win: "calculateWinner (?h ! ?c) = Null"
      by simp
    let ?nb = "(?h ! ?c)\<lparr>elems := (elems (?h ! ?c))[nat i := turnToMove g]\<rparr>"
    let ?h' = "take (?c + 1) ?h @ [?nb]"
    have am: "snd (attemptMove g i) = \<lparr>history = ?h', currentMove = currentMove g + 1\<rparr>"
    proof -
      from b9 i have set: "array_set (slice (?h ! ?c)) i (turnToMove g) = ?nb"
        by (simp add: array_set_def slice_def board9_def)
      from cur win empty show ?thesis
        by (simp add: attemptMove_cases truthy_def set handlePlay_in_range [OF c])
    qed
    from clen have len': "length ?h' = ?c + 2"
      by simp
    from b9 i empty have cell: "elems (?h ! ?c) ! nat i = Null"
      by (simp add: array_get_def board9_def)
    from c have turn: "turnToMove g = (if even ((?c + 1) - 1) then MarkX else MarkO)"
      by (simp add: turnToMove_def xIsNext_even even_nat_iff)
    from i have "nat i < 9"
      by simp
    with b9 have last: "one_move (?c + 1) (?h ! ?c) ?nb"
      using cell turn by (rule one_move_update)
    have steps: "one_move k (?h' ! (k - 1)) (?h' ! k)" if k: "0 < k" "k < length ?h'" for k
    proof (cases "k \<le> ?c")
      case True
      with clen k have "?h' ! (k - 1) = ?h ! (k - 1)" and "?h' ! k = ?h ! k"
        by (simp_all add: nth_append)
      moreover from True clen k inv have "one_move k (?h ! (k - 1)) (?h ! k)"
        by (intro history_inv_step) simp_all
      ultimately show ?thesis
        by simp
    next
      case False
      with k len' have keq: "k = ?c + 1"
        by simp
      with clen have "?h' ! (k - 1) = ?h ! ?c" and "?h' ! k = ?nb"
        by (simp_all add: nth_append)
      with last keq show ?thesis
        by simp
    qed
    from inv clen have zero: "?h' ! 0 = emptyBoard"
      by (simp add: nth_append history_inv_def)
    from c len' zero steps show ?thesis
      unfolding am history_inv_def by simp
  qed
qed

lemma reachable_history_inv: "reachable g \<Longrightarrow> history_inv g"
proof (induction rule: reachable.induct)
  case start
  show ?case by (rule history_inv_initial)
next
  case (step g e)
  then show ?case
    by (cases e) (simp_all add: history_inv_attemptMove history_inv_jumpTo)
qed

text \<open>
  C5. In every state reached from the initial one by the clicks and jumps the page
  offers, the first snapshot is the empty board, and every later snapshot \<open>k\<close> differs
  from snapshot \<open>k - 1\<close> in exactly one cell, which was empty and holds X when
  \<open>k - 1\<close> is even and O when it is odd.
\<close>

theorem reachable_history:
  assumes "reachable g"
  shows "history g \<noteq> []
         \<and> history g ! 0 = emptyBoard
         \<and> (\<forall>k. 0 < k \<and> k < length (history g)
                 \<longrightarrow> one_move k (history g ! (k - 1)) (history g ! k))"
proof -
  from assms have "history_inv g"
    by (rule reachable_history_inv)
  then show ?thesis
    by (auto simp: history_inv_def)
qed


text \<open>X at 4, O at 0, back to move 1, O at 8.\<close>

theorem reachable_history_witness:
  "reachable (fire (fire (fire (fire initial (SquareClick 4)) (SquareClick 0)) (MoveButton 1))
                (SquareClick 8))
   \<and> history (fire (fire (fire (fire initial (SquareClick 4)) (SquareClick 0)) (MoveButton 1))
                (SquareClick 8)) =
       [emptyBoard,
        \<lparr>elems = [Null, Null, Null, Null, MarkX, Null, Null, Null, Null], props = []\<rparr>,
        \<lparr>elems = [Null, Null, Null, Null, MarkX, Null, Null, Null, MarkO], props = []\<rparr>]
   \<and> one_move 2 \<lparr>elems = [Null, Null, Null, Null, MarkX, Null, Null, Null, Null], props = []\<rparr>
                 \<lparr>elems = [Null, Null, Null, Null, MarkX, Null, Null, Null, MarkO], props = []\<rparr>"
proof -
  let ?g1 = "fire initial (SquareClick 4)"
  let ?g2 = "fire ?g1 (SquareClick 0)"
  let ?g3 = "fire ?g2 (MoveButton 1)"
  let ?g4 = "fire ?g3 (SquareClick 8)"
  have h2: "history ?g2 =
       [emptyBoard,
        \<lparr>elems = [Null, Null, Null, Null, MarkX, Null, Null, Null, Null], props = []\<rparr>,
        \<lparr>elems = [MarkO, Null, Null, Null, MarkX, Null, Null, Null, Null], props = []\<rparr>]"
    by (simp add: run_defs)
  have h4: "history ?g4 =
       [emptyBoard,
        \<lparr>elems = [Null, Null, Null, Null, MarkX, Null, Null, Null, Null], props = []\<rparr>,
        \<lparr>elems = [Null, Null, Null, Null, MarkX, Null, Null, Null, MarkO], props = []\<rparr>]"
    by (simp add: run_defs)
  have "reachable ?g1"
    by (rule reachable.step [OF reachable.start]) simp
  then have "reachable ?g2"
    by (rule reachable.step) simp
  moreover have "offered ?g2 (MoveButton 1)"
    unfolding offered.simps h2 by simp
  ultimately have "reachable ?g3"
    by (rule reachable.step)
  then have r: "reachable ?g4"
    by (rule reachable.step) simp
  from reachable_history [OF r]
  have "0 < (2::nat) \<and> 2 < length (history ?g4)
          \<longrightarrow> one_move 2 (history ?g4 ! (2 - 1)) (history ?g4 ! 2)"
    by blast
  then have "one_move 2 \<lparr>elems = [Null, Null, Null, Null, MarkX, Null, Null, Null, Null], props = []\<rparr>
                 \<lparr>elems = [Null, Null, Null, Null, MarkX, Null, Null, Null, MarkO], props = []\<rparr>"
    unfolding h4 by simp
  with r h4 show ?thesis
    by (simp only: simp_thms)
qed

subsection \<open>Snapshots are never written to\<close>

lemma handleClick_ref_cases:
  "handleClick_ref store xNext (Some r) i =
     (if truthy (calculateWinner (store ! r)) then Inl GameAlreadyWon
      else if truthy (array_get (store ! r) i) then Inl CellOccupied
      else Inr (store @ [array_set (slice (store ! r)) i (if xNext then MarkX else MarkO)],
                length store))"
  by (simp add: handleClick_ref_def Let_def)

lemma attemptMove_ref_success:
  assumes "attemptMove_ref s i = (Inr n, s')"
  shows "0 \<le> currentMove_ref s \<and> currentMove_ref s < int (length (history_refs s))
         \<and> n = length (boards s)
         \<and> boards s' = boards s @ [array_set (slice (boards s ! (history_refs s ! nat (currentMove_ref s)))) i
                                     (if currentMove_ref s smod 2 = 0 then MarkX else MarkO)]
         \<and> history_refs s' = take (nat (currentMove_ref s) + 1) (history_refs s) @ [n]
         \<and> currentMove_ref s' = currentMove_ref s + 1"
proof (cases "currentSquares_ref s")
  case None
  with assms show ?thesis
    by (simp add: attemptMove_ref_def handleClick_ref_def)
next
  case (Some r)
  then have c: "0 \<le> currentMove_ref s" "currentMove_ref s < int (length (history_refs s))"
    and r: "r = history_refs s ! nat (currentMove_ref s)"
    by (simp_all add: currentSquares_ref_def split: if_splits)
  from c have "slice_to (history_refs s) (currentMove_ref s + 1)
      = take (nat (currentMove_ref s) + 1) (history_refs s)"
    by (simp add: slice_to_def nat_add_distrib)
  moreover from c have "int (length (take (nat (currentMove_ref s) + 1) (history_refs s))) = currentMove_ref s + 1"
    by simp
  ultimately show ?thesis
    using assms Some c r
    by (auto simp: attemptMove_ref_def handleClick_ref_cases handlePlay_ref_def Let_def
        split: if_splits)
qed

text \<open>
  C10. A successful click writes to no array object that existed before: the object
  handed to \<^verbatim>\<open>handlePlay\<close> is a new one, referred to by no entry of the history, and
  every entry of the history from index 0 to the cursor still refers to the same object,
  whose contents are what they were.
\<close>

theorem attemptMove_ref_frame:
  assumes "valid_refs s"
    and "attemptMove_ref s i = (Inr nextSquares, s')"
  shows "(\<forall>r<length (boards s). boards s' ! r = boards s ! r)
         \<and> (\<forall>k. int k \<le> currentMove_ref s \<longrightarrow>
                k < length (history_refs s)
              \<and> history_refs s' ! k = history_refs s ! k
              \<and> boards s' ! (history_refs s' ! k) = boards s ! (history_refs s ! k))
         \<and> nextSquares = length (boards s)
         \<and> nextSquares \<notin> set (history_refs s)
         \<and> last (history_refs s') = nextSquares"
proof -
  note succ = attemptMove_ref_success [OF assms(2)]
  from succ have old: "boards s' ! r = boards s ! r" if "r < length (boards s)" for r
    using that by (simp add: nth_append)
  from assms(1) have valid: "r < length (boards s)" if "r \<in> set (history_refs s)" for r
    using that by (simp add: valid_refs_def list_all_iff)
  have kept: "k < length (history_refs s)
              \<and> history_refs s' ! k = history_refs s ! k
              \<and> boards s' ! (history_refs s' ! k) = boards s ! (history_refs s ! k)"
    if k: "int k \<le> currentMove_ref s" for k
  proof -
    from k succ have len: "k < length (history_refs s)" and le: "k < nat (currentMove_ref s) + 1"
      by simp_all
    with succ have same: "history_refs s' ! k = history_refs s ! k"
      by (simp add: nth_append)
    from len have "history_refs s ! k \<in> set (history_refs s)"
      by simp
    then have "history_refs s ! k < length (boards s)"
      by (rule valid)
    then have "boards s' ! (history_refs s ! k) = boards s ! (history_refs s ! k)"
      by (rule old)
    with len same show ?thesis
      by simp
  qed
  from succ have fresh: "nextSquares \<notin> set (history_refs s)"
    using valid by auto
  from succ have "last (history_refs s') = nextSquares"
    by simp
  with old kept fresh succ show ?thesis
    by blast
qed

lemma deref_currentSquares:
  "currentSquares (deref s) = map_option (\<lambda>r. boards s ! r) (currentSquares_ref s)"
  by (auto simp: currentSquares_def currentSquares_ref_def deref_def)

text \<open>The two models agree: a click in a state with a store, read through \<open>deref\<close>,
  is the click of the first model.\<close>

lemma attemptMove_deref:
  assumes "valid_refs s"
  shows "attemptMove (deref s) i =
           (case attemptMove_ref s i of
              (Inl e, s') \<Rightarrow> (Inl e, deref s')
            | (Inr n, s') \<Rightarrow> (Inr (boards s' ! n), deref s'))"
proof (cases "currentSquares_ref s")
  case None
  then show ?thesis
    by (simp add: attemptMove_def attemptMove_ref_def handleClick_def handleClick_ref_def
        deref_currentSquares)
next
  case (Some r)
  then have c: "0 \<le> currentMove_ref s" "currentMove_ref s < int (length (history_refs s))"
    and r: "r = history_refs s ! nat (currentMove_ref s)"
    by (simp_all add: currentSquares_ref_def split: if_splits)
  let ?c = "nat (currentMove_ref s)"
  let ?nb = "array_set (slice (boards s ! r)) i (if currentMove_ref s smod 2 = 0 then MarkX else MarkO)"
  from assms have valid: "\<forall>q\<in>set (history_refs s). q < length (boards s)"
    by (simp add: valid_refs_def list_all_iff)
  have cur: "currentSquares (deref s) = Some (boards s ! r)"
    by (simp add: deref_currentSquares Some)
  have x: "xIsNext (deref s) = (currentMove_ref s smod 2 = 0)"
    by (simp add: xIsNext_def deref_def)
  show ?thesis
  proof (cases "truthy (calculateWinner (boards s ! r)) \<or> truthy (array_get (boards s ! r) i)")
    case True
    then show ?thesis
      by (auto simp: attemptMove_def attemptMove_ref_def handleClick_def handleClick_ref_cases
          cur Some x)
  next
    case False
    let ?s' = "\<lparr>boards = boards s @ [?nb], history_refs = take (?c + 1) (history_refs s) @ [length (boards s)],
                currentMove_ref = currentMove_ref s + 1\<rparr>"
    from c have sl: "slice_to (history_refs s) (currentMove_ref s + 1) = take (?c + 1) (history_refs s)"
      by (simp add: slice_to_def nat_add_distrib)
    from c have ln: "int (length (take (?c + 1) (history_refs s))) = currentMove_ref s + 1"
      by simp
    from False have ref: "attemptMove_ref s i = (Inr (length (boards s)), ?s')"
      using sl ln by (simp add: attemptMove_ref_def handleClick_ref_cases Some handlePlay_ref_def Let_def)
    have "map (\<lambda>q. (boards s @ [?nb]) ! q) (take (?c + 1) (history_refs s))
        = map (\<lambda>q. boards s ! q) (take (?c + 1) (history_refs s))"
      using valid by (intro map_cong refl) (auto simp: nth_append dest: in_set_takeD)
    then have d: "deref ?s' = \<lparr>history = take (?c + 1) (map (\<lambda>q. boards s ! q) (history_refs s)) @ [?nb],
                   currentMove = currentMove_ref s + 1\<rparr>"
      by (simp add: deref_def take_map)
    from c have hp: "handlePlay (deref s) ?nb = \<lparr>history = take (?c + 1) (map (\<lambda>q. boards s ! q) (history_refs s)) @ [?nb],
                   currentMove = currentMove_ref s + 1\<rparr>"
      using handlePlay_in_range [of "deref s" ?nb] by (simp add: deref_def)
    from False have "attemptMove (deref s) i = (Inr ?nb, handlePlay (deref s) ?nb)"
      by (simp add: attemptMove_def handleClick_def cur x)
    with ref d hp show ?thesis
      by simp
  qed
qed


lemma valid_refs_initial: "valid_refs initial_ref"
  by (simp add: valid_refs_def initial_ref_def)

lemma valid_refs_attemptMove_ref:
  assumes "valid_refs s"
  shows "valid_refs (snd (attemptMove_ref s i))"
proof (cases "attemptMove_ref s i")
  case (Pair res s')
  show ?thesis
  proof (cases res)
    case (Inl e)
    with Pair have "s' = s"
      by (auto simp: attemptMove_ref_def split: sum.splits)
    with Pair assms show ?thesis
      by simp
  next
    case (Inr n)
    with Pair have "attemptMove_ref s i = (Inr n, s')"
      by simp
    note succ = attemptMove_ref_success [OF this]
    from assms have "\<forall>r\<in>set (history_refs s). r < length (boards s)"
      by (simp add: valid_refs_def list_all_iff)
    with succ have "\<forall>r\<in>set (history_refs s'). r < length (boards s')"
      by (fastforce dest: in_set_takeD)
    with Pair show ?thesis
      by (simp add: valid_refs_def list_all_iff)
  qed
qed

text \<open>After X at 4, the click on square 0: the snapshot with X at 4 is as it was.\<close>

theorem attemptMove_ref_frame_witness:
  "attemptMove_ref
     \<lparr>boards = [emptyBoard,
                \<lparr>elems = [Null, Null, Null, Null, MarkX, Null, Null, Null, Null], props = []\<rparr>],
      history_refs = [0, 1], currentMove_ref = 1\<rparr> 0 =
     (Inr 2,
      \<lparr>boards = [emptyBoard,
                 \<lparr>elems = [Null, Null, Null, Null, MarkX, Null, Null, Null, Null], props = []\<rparr>,
                 \<lparr>elems = [MarkO, Null, Null, Null, MarkX, Null, Null, Null, Null], props = []\<rparr>],
       history_refs = [0, 1, 2], currentMove_ref = 2\<rparr>)
   \<and> boards (snd (attemptMove_ref
        \<lparr>boards = [emptyBoard,
                   \<lparr>elems = [Null, Null, Null, Null, MarkX, Null, Null, Null, Null], props = []\<rparr>],
         history_refs = [0, 1], currentMove_ref = 1\<rparr> 0)) ! 1 =
       \<lparr>elems = [Null, Null, Null, Null, MarkX, Null, Null, Null, Null], props = []\<rparr>"
proof -
  let ?b = "\<lparr>elems = [Null, Null, Null, Null, MarkX, Null, Null, Null, Null], props = []\<rparr>"
  let ?s = "\<lparr>boards = [emptyBoard, ?b], history_refs = [0, 1], currentMove_ref = 1\<rparr>"
  let ?s' = "\<lparr>boards = [emptyBoard, ?b,
                 \<lparr>elems = [MarkO, Null, Null, Null, MarkX, Null, Null, Null, Null], props = []\<rparr>],
       history_refs = [0, 1, 2], currentMove_ref = 2\<rparr>"
  have v: "valid_refs ?s"
    by (simp add: valid_refs_def)
  have a: "attemptMove_ref ?s 0 = (Inr 2, ?s')"
    by (simp add: attemptMove_ref_def handleClick_ref_def handlePlay_ref_def currentSquares_ref_def
        Let_def run_defs)
  from attemptMove_ref_frame [OF v a]
  have "\<forall>r<length (boards ?s). boards ?s' ! r = boards ?s ! r"
    by (rule conjunct1)
  then have "boards ?s' ! 1 = boards ?s ! 1"
    by simp
  with a show ?thesis
    by simp
qed

end
